theory Spec2Isabelle
  imports Main
begin

section \<open>The streak correction job of src/utils/streakCorrection.ts\<close>

text \<open>
  The job reads the rows of the table \<^verbatim>\<open>child_progress\<close> whose \<^verbatim>\<open>streak_count\<close> is
  positive, decides for each row whether its streak is stale, and sets the counter of the
  stale rows to zero with one batched update. Everything outside the function is explicit
  here: the table, the clock, the way each of the two store calls ends, and the calls issued.
\<close>

subsection \<open>Dates (date-fns)\<close>

text \<open>
  A JavaScript \<^verbatim>\<open>Date\<close> is modelled by its local wall-clock reading in milliseconds
  (what \<^verbatim>\<open>getFullYear\<close> ... \<^verbatim>\<open>getMilliseconds\<close> show, counted from local midnight of
  1970-01-01), or \<open>None\<close> for an Invalid Date. The date-fns functions the job calls work on
  these local fields only, so the zone's offset does not appear.
\<close>

type_synonym date = "int option"

definition ms_per_day :: int where
  "ms_per_day = 86400000"

definition startOfDay :: "int \<Rightarrow> int" where
  \<comment> \<open>\<^verbatim>\<open>setHours(0, 0, 0, 0)\<close> on a copy\<close>
  "startOfDay t = t - t mod ms_per_day"

definition compareLocalAsc :: "int \<Rightarrow> int \<Rightarrow> int" where
  \<comment> \<open>the sign of the first differing local field, year first\<close>
  "compareLocalAsc l r = (if l < r then - 1 else if l > r then 1 else 0)"

definition differenceInCalendarDays :: "int \<Rightarrow> int \<Rightarrow> int" where
  \<comment> \<open>both ends are taken to their local midnight before subtracting\<close>
  "differenceInCalendarDays l r = (startOfDay l - startOfDay r) div ms_per_day"

definition differenceInDays :: "int \<Rightarrow> int \<Rightarrow> int" where
  \<comment> \<open>full days between the two moments, as date-fns computes them\<close>
  "differenceInDays l r =
     (let sign = compareLocalAsc l r;
          difference = \<bar>differenceInCalendarDays l r\<bar>;
          l' = l - sign * difference * ms_per_day;
          isLastDayNotFull = (if compareLocalAsc l' r = - sign then 1 else 0)
      in sign * (difference - isLastDayNotFull))"

subsection \<open>Rows, store calls and results\<close>

text \<open>
  The job selects \<^verbatim>\<open>*\<close>; the three columns it reads are named, the others are the
  extension of the record.
\<close>

record child_progress =
  child_id :: string
  last_check_in :: "string option"
  streak_count :: int

datatype pg_error = PgError (message_of: string)

datatype thrown = Error string | NotAnError

datatype reply = Done | Refused pg_error | Rejected thrown

datatype store_call = Select | Update "string list"

text \<open>
  The world the job runs in. \<open>select_reply\<close> and \<open>update_reply\<close> say how the store ends
  each call: it answers, it answers with an error object, or the awaited promise rejects.
\<close>

record 'a world =
  child_progress_table :: "'a child_progress_scheme list"
  now :: int
  select_reply :: reply
  update_reply :: reply
  calls :: "store_call list"

record result =
  success :: bool
  message :: "string option"
  resetChildren :: "string list option"
  error :: "string option"

definition failure :: "string \<Rightarrow> result" where
  \<comment> \<open>\<^verbatim>\<open>{ success: false, error: msg }\<close>\<close>
  "failure msg = \<lparr>success = False, message = None, resetChildren = None, error = Some msg\<rparr>"

subsection \<open>The store\<close>

definition select_streak_gt_0 ::
  "'a world \<Rightarrow> (thrown + pg_error + 'a child_progress_scheme list) \<times> 'a world" where
  \<comment> \<open>\<^verbatim>\<open>from('child_progress').select('*').gt('streak_count', 0)\<close>\<close>
  "select_streak_gt_0 w =
     (let w' = w\<lparr>calls := calls w @ [Select]\<rparr> in
      case select_reply w of
        Rejected x \<Rightarrow> (Inl x, w')
      | Refused e \<Rightarrow> (Inr (Inl e), w')
      | Done \<Rightarrow> (Inr (Inr (filter (\<lambda>r. streak_count r > 0) (child_progress_table w))), w'))"

definition set_streak_zero ::
  "string list \<Rightarrow> 'a child_progress_scheme \<Rightarrow> 'a child_progress_scheme" where
  "set_streak_zero ids r = (if child_id r \<in> set ids then r\<lparr>streak_count := 0\<rparr> else r)"

text \<open>
  Modelled from the spec: what the store does when the batched update fails is not in
  the source (the store is the hosted database). The spec says the update is a single batch
  and that a failed write applies no correction, so a call that ends in an error leaves the
  table as it was; a call that succeeds changes every row whose \<^verbatim>\<open>child_id\<close> is in the list.
\<close>

definition update_streak_0_in ::
  "string list \<Rightarrow> 'a world \<Rightarrow> (thrown + pg_error option) \<times> 'a world" where
  \<comment> \<open>\<^verbatim>\<open>from('child_progress').update({ streak_count: 0 }).in('child_id', ids)\<close>\<close>
  "update_streak_0_in ids w =
     (let w' = w\<lparr>calls := calls w @ [Update ids]\<rparr> in
      case update_reply w of
        Rejected x \<Rightarrow> (Inl x, w')
      | Refused e \<Rightarrow> (Inr (Some e), w')
      | Done \<Rightarrow> (Inr None,
                 w'\<lparr>child_progress_table := map (set_streak_zero ids) (child_progress_table w)\<rparr>))"

subsection \<open>The job\<close>

definition invalid_time_value :: string where
  \<comment> \<open>the message of the RangeError of \<^verbatim>\<open>toISOString\<close> on an Invalid Date (V8's wording)\<close>
  "invalid_time_value = ''Invalid time value''"

text \<open>
  The loop over the fetched rows. \<open>parseISO\<close> is the library's parser, a parameter here.
  The log line of a row with a non-empty \<^verbatim>\<open>last_check_in\<close> calls \<^verbatim>\<open>toISOString\<close> on the
  parsed date, which throws on an Invalid Date: the loop ends there.
\<close>

fun childrenToUpdate_loop ::
  "(string \<Rightarrow> date) \<Rightarrow> int \<Rightarrow> 'a child_progress_scheme list \<Rightarrow> string list \<Rightarrow> thrown + string list" where
  "childrenToUpdate_loop parseISO todayStartOfDay [] childrenToUpdate = Inr childrenToUpdate"
| "childrenToUpdate_loop parseISO todayStartOfDay (child # rest) childrenToUpdate =
     (case last_check_in child of
        None \<Rightarrow> childrenToUpdate_loop parseISO todayStartOfDay rest (childrenToUpdate @ [child_id child])
      | Some s \<Rightarrow>
          if s = [] then
            childrenToUpdate_loop parseISO todayStartOfDay rest (childrenToUpdate @ [child_id child])
          else
            (case parseISO s of
               None \<Rightarrow> Inl (Error invalid_time_value)
             | Some lastCheckInDate \<Rightarrow>
                 if differenceInDays todayStartOfDay lastCheckInDate > 1 then
                   childrenToUpdate_loop parseISO todayStartOfDay rest (childrenToUpdate @ [child_id child])
                 else childrenToUpdate_loop parseISO todayStartOfDay rest childrenToUpdate))"

fun digits_of :: "nat \<Rightarrow> string" where
  "digits_of n =
     (if n < 10 then [char_of (48 + n)] else digits_of (n div 10) @ [char_of (48 + n mod 10)])"

definition reset_message :: "nat \<Rightarrow> string" where
  "reset_message n = ''Reset streak counts for '' @ digits_of n @ '' children who missed check-ins''"

definition try_block ::
  "(string \<Rightarrow> date) \<Rightarrow> 'a world \<Rightarrow> (thrown + result) \<times> 'a world" where
  "try_block parseISO w0 =
     (case select_streak_gt_0 w0 of
        (Inl x, w1) \<Rightarrow> (Inl x, w1)
      | (Inr (Inl fetchError), w1) \<Rightarrow> (Inr (failure (message_of fetchError)), w1)
      | (Inr (Inr childProgress), w1) \<Rightarrow>
          (case childrenToUpdate_loop parseISO (startOfDay (now w1)) childProgress [] of
             Inl x \<Rightarrow> (Inl x, w1)
           | Inr childrenToUpdate \<Rightarrow>
               if length childrenToUpdate > 0 then
                 (case update_streak_0_in childrenToUpdate w1 of
                    (Inl x, w2) \<Rightarrow> (Inl x, w2)
                  | (Inr (Some updateError), w2) \<Rightarrow> (Inr (failure (message_of updateError)), w2)
                  | (Inr None, w2) \<Rightarrow>
                      (Inr \<lparr>success = True,
                            message = Some (reset_message (length childrenToUpdate)),
                            resetChildren = Some childrenToUpdate,
                            error = None\<rparr>, w2))
               else
                 (Inr \<lparr>success = True,
                       message = Some ''No streak count corrections needed'',
                       resetChildren = None,
                       error = None\<rparr>, w1)))"

definition catch_message :: "thrown \<Rightarrow> string" where
  \<comment> \<open>\<^verbatim>\<open>error instanceof Error ? error.message : "Unknown error occurred"\<close>\<close>
  "catch_message x = (case x of Error m \<Rightarrow> m | NotAnError \<Rightarrow> ''Unknown error occurred'')"

definition correctExistingStreakCounts ::
  "(string \<Rightarrow> date) \<Rightarrow> 'a world \<Rightarrow> result \<times> 'a world" where
  "correctExistingStreakCounts parseISO w =
     (case try_block parseISO w of
        (Inl x, w') \<Rightarrow> (failure (catch_message x), w')
      | (Inr r, w') \<Rightarrow> (r, w'))"

subsection \<open>Vocabulary of the statements\<close>

definition loaded :: "'a world \<Rightarrow> 'a child_progress_scheme list" where
  \<comment> \<open>the rows the select returns when it succeeds\<close>
  "loaded w = filter (\<lambda>r. 0 < streak_count r) (child_progress_table w)"

definition unreadable :: "(string \<Rightarrow> date) \<Rightarrow> 'a child_progress_scheme \<Rightarrow> bool" where
  \<comment> \<open>a non-empty \<^verbatim>\<open>last_check_in\<close> that the parser turns into an Invalid Date\<close>
  "unreadable parseISO r =
     (case last_check_in r of None \<Rightarrow> False | Some s \<Rightarrow> s \<noteq> [] \<and> parseISO s = None)"

definition needs_reset :: "(string \<Rightarrow> date) \<Rightarrow> int \<Rightarrow> 'a child_progress_scheme \<Rightarrow> bool" where
  \<comment> \<open>the two tests of the loop that push a \<^verbatim>\<open>child_id\<close>\<close>
  "needs_reset parseISO todayStartOfDay r =
     (case last_check_in r of
        None \<Rightarrow> True
      | Some s \<Rightarrow> s = [] \<or>
          (case parseISO s of
             None \<Rightarrow> False
           | Some t \<Rightarrow> 1 < differenceInDays todayStartOfDay t))"

definition to_reset :: "(string \<Rightarrow> date) \<Rightarrow> 'a world \<Rightarrow> string list" where
  "to_reset parseISO w =
     map child_id (filter (needs_reset parseISO (startOfDay (now w))) (loaded w))"

definition no_corrections :: result where
  "no_corrections = \<lparr>success = True, message = Some ''No streak count corrections needed'',
                      resetChildren = None, error = None\<rparr>"

text \<open>
  The specification's reading of the classification: the elapsed days are the difference of
  the two calendar days, both ends taken to midnight.
\<close>

definition spec_classified :: "(string \<Rightarrow> date) \<Rightarrow> int \<Rightarrow> 'a child_progress_scheme \<Rightarrow> bool" where
  "spec_classified parseISO today r =
     (case last_check_in r of
        None \<Rightarrow> True
      | Some s \<Rightarrow> s = [] \<or>
          (case parseISO s of
             None \<Rightarrow> False
           | Some t \<Rightarrow> 1 < differenceInCalendarDays today t))"

text \<open>
  The specification's invariant of one record: a positive streak has a check-in dated today
  or yesterday.
\<close>

definition spec_invariant :: "(string \<Rightarrow> date) \<Rightarrow> int \<Rightarrow> 'a child_progress_scheme \<Rightarrow> bool" where
  "spec_invariant parseISO today r =
     (if 0 < streak_count r then
        (case last_check_in r of
           None \<Rightarrow> False
         | Some s \<Rightarrow> s \<noteq> [] \<and>
             (case parseISO s of
                None \<Rightarrow> False
              | Some t \<Rightarrow> differenceInCalendarDays today t = 0 \<or> differenceInCalendarDays today t = 1))
      else True)"

subsection \<open>A parser for the examples\<close>

text \<open>
  The concrete examples need one parser. \<open>parseISO_local\<close> reads the form
  \<^verbatim>\<open>YYYY-MM-DDTHH:mm:ss\<close>, which \<^verbatim>\<open>parseISO\<close> takes as local time, with the library's
  range checks; every other string is an Invalid Date here (the library reads more forms,
  none of them used below).
\<close>

definition digit_of :: "char \<Rightarrow> nat option" where
  "digit_of c = (let n = (of_char c :: nat) in if 48 \<le> n \<and> n \<le> 57 then Some (n - 48) else None)"

fun number_of_digits :: "string \<Rightarrow> nat \<Rightarrow> nat option" where
  "number_of_digits [] acc = Some acc"
| "number_of_digits (c # cs) acc =
     (case digit_of c of None \<Rightarrow> None | Some d \<Rightarrow> number_of_digits cs (10 * acc + d))"

definition isLeapYearIndex :: "nat \<Rightarrow> bool" where
  "isLeapYearIndex year = (year mod 400 = 0 \<or> (year mod 4 = 0 \<and> year mod 100 \<noteq> 0))"

definition daysInMonth :: "nat \<Rightarrow> nat \<Rightarrow> nat" where
  "daysInMonth year month =
     (if month = 2 then (if isLeapYearIndex year then 29 else 28)
      else if month \<in> {4, 6, 9, 11} then 30 else 31)"

definition validateDate :: "nat \<Rightarrow> nat \<Rightarrow> nat \<Rightarrow> bool" where
  "validateDate year month day = (1 \<le> month \<and> month \<le> 12 \<and> 1 \<le> day \<and> day \<le> daysInMonth year month)"

definition validateTime :: "nat \<Rightarrow> nat \<Rightarrow> nat \<Rightarrow> bool" where
  "validateTime hours minutes seconds =
     (if hours = 24 then minutes = 0 \<and> seconds = 0
      else seconds < 60 \<and> minutes < 60 \<and> hours < 25)"

definition days_since_1970 :: "nat \<Rightarrow> nat \<Rightarrow> nat \<Rightarrow> int" where
  \<comment> \<open>the count of days from 1970-01-01 to the given day of the Gregorian calendar\<close>
  "days_since_1970 year month day =
     (let y = (if month \<le> 2 then int year - 1 else int year);
          era = y div 400;
          yoe = y - era * 400;
          mp = (int month + 9) mod 12;
          doy = (153 * mp + 2) div 5 + int day - 1;
          doe = yoe * 365 + yoe div 4 - yoe div 100 + doy
      in era * 146097 + doe - 719468)"

definition local_ms :: "nat \<Rightarrow> nat \<Rightarrow> nat \<Rightarrow> nat \<Rightarrow> nat \<Rightarrow> nat \<Rightarrow> int" where
  "local_ms year month day hours minutes seconds =
     days_since_1970 year month day * ms_per_day
       + int hours * 3600000 + int minutes * 60000 + int seconds * 1000"

definition parseISO_local :: "string \<Rightarrow> date" where
  "parseISO_local s =
     (if length s = 19 \<and> s ! 4 = CHR ''-'' \<and> s ! 7 = CHR ''-'' \<and> s ! 10 = CHR ''T''
         \<and> s ! 13 = CHR '':'' \<and> s ! 16 = CHR '':'' then
        (case (number_of_digits (take 4 s) 0, number_of_digits (take 2 (drop 5 s)) 0,
               number_of_digits (take 2 (drop 8 s)) 0, number_of_digits (take 2 (drop 11 s)) 0,
               number_of_digits (take 2 (drop 14 s)) 0, number_of_digits (take 2 (drop 17 s)) 0) of
           (Some year, Some month, Some day, Some hours, Some minutes, Some seconds) \<Rightarrow>
             if validateDate year month day \<and> validateTime hours minutes seconds
             then Some (local_ms year month day hours minutes seconds)
             else None
         | _ \<Rightarrow> None)
      else None)"

definition run_completes :: "(string \<Rightarrow> date) \<Rightarrow> 'a world \<Rightarrow> bool" where
  \<comment> \<open>the read succeeds, every loaded date parses, and the update, if one is due, succeeds\<close>
  "run_completes p w \<longleftrightarrow>
     select_reply w = Done \<and> (\<forall>r\<in>set (loaded w). \<not> unreadable p r)
       \<and> (to_reset p w = [] \<or> update_reply w = Done)"

definition reply_message :: "reply \<Rightarrow> string option" where
  \<comment> \<open>the text a failed store call leaves in the result's \<^verbatim>\<open>error\<close> field\<close>
  "reply_message rp =
     (case rp of Done \<Rightarrow> None | Refused e \<Rightarrow> Some (message_of e) | Rejected x \<Rightarrow> Some (catch_message x))"

subsection \<open>Example rows and worlds\<close>

text \<open>The examples are evaluated on the morning of 2024-01-17.\<close>

definition today_example :: int where
  "today_example = local_ms 2024 1 17 10 0 0"

definition row_three_days_ago :: child_progress where
  "row_three_days_ago = \<lparr>child_id = ''A'', last_check_in = Some ''2024-01-14T15:00:00'', streak_count = 5\<rparr>"

definition row_yesterday :: child_progress where
  "row_yesterday = \<lparr>child_id = ''B'', last_check_in = Some ''2024-01-16T08:30:00'', streak_count = 5\<rparr>"

definition row_two_days_ago :: child_progress where
  "row_two_days_ago = \<lparr>child_id = ''C'', last_check_in = Some ''2024-01-15T15:00:00'', streak_count = 5\<rparr>"

definition row_no_check_in :: child_progress where
  "row_no_check_in = \<lparr>child_id = ''N'', last_check_in = None, streak_count = 2\<rparr>"

definition row_future :: child_progress where
  "row_future = \<lparr>child_id = ''F'', last_check_in = Some ''2024-01-20T09:00:00'', streak_count = 4\<rparr>"

definition row_unreadable :: child_progress where
  "row_unreadable = \<lparr>child_id = ''X'', last_check_in = Some ''not a date'', streak_count = 1\<rparr>"

definition world_of :: "child_progress list \<Rightarrow> reply \<Rightarrow> reply \<Rightarrow> unit world" where
  "world_of rows sr ur =
     \<lparr>child_progress_table = rows, now = today_example, select_reply = sr, update_reply = ur,
      calls = []\<rparr>"

section \<open>Properties\<close>

subsection \<open>Full days and calendar days\<close>

lemma calendar_days_div: "differenceInCalendarDays l r = l div ms_per_day - r div ms_per_day"
proof -
  have pos: "ms_per_day \<noteq> 0" by (simp add: ms_per_day_def)
  have a: "l - l mod ms_per_day = (l div ms_per_day) * ms_per_day"
    by (simp add: minus_mod_eq_div_mult)
  have b: "r - r mod ms_per_day = (r div ms_per_day) * ms_per_day"
    by (simp add: minus_mod_eq_div_mult)
  have "(l div ms_per_day) * ms_per_day - (r div ms_per_day) * ms_per_day
        = (l div ms_per_day - r div ms_per_day) * ms_per_day"
    by (simp add: algebra_simps)
  then show ?thesis
    unfolding differenceInCalendarDays_def startOfDay_def a b using pos by simp
qed

lemma differenceInDays_trunc:
  "differenceInDays l r = (if r \<le> l then (l - r) div ms_per_day else - ((r - l) div ms_per_day))"
proof -
  define a p b q where "a = l div ms_per_day" and "p = l mod ms_per_day"
    and "b = r div ms_per_day" and "q = r mod ms_per_day"
  have l: "l = a * 86400000 + p" and r: "r = b * 86400000 + q"
    by (simp_all add: a_def p_def b_def q_def ms_per_day_def)
  have bounds: "0 \<le> p" "p < 86400000" "0 \<le> q" "q < 86400000"
    by (simp_all add: p_def q_def ms_per_day_def)
  have cd: "differenceInCalendarDays l r = a - b"
    by (simp add: calendar_days_div a_def b_def)
  have dv: "\<And>k y::int. 0 \<le> y \<Longrightarrow> y < 86400000 \<Longrightarrow> (k * 86400000 + y) div 86400000 = k"
    by simp
  have dn: "\<And>k y::int. - 86400000 \<le> y \<Longrightarrow> y < 0 \<Longrightarrow> (k * 86400000 + y) div 86400000 = k - 1"
  proof -
    fix k y :: int assume "- 86400000 \<le> y" "y < 0"
    then have "(k * 86400000 + y) = (k - 1) * 86400000 + (y + 86400000)" "0 \<le> y + 86400000" "y + 86400000 < 86400000"
      by (simp_all add: algebra_simps)
    then show "(k * 86400000 + y) div 86400000 = k - 1"
      using dv by metis
  qed
  have dd: "differenceInDays l r = compareLocalAsc l r *
      (\<bar>a - b\<bar> - (if compareLocalAsc (l - compareLocalAsc l r * \<bar>a - b\<bar> * ms_per_day) r
                          = - compareLocalAsc l r then 1 else 0))"
    by (simp add: differenceInDays_def Let_def cd)
  consider (gt) "r < l" | (eq) "r = l" | (lt) "l < r" by linarith
  then show ?thesis
  proof cases
    case gt
    then have ab: "b \<le> a" using l r bounds by linarith
    have lr: "l - r = (a - b) * 86400000 + (p - q)" using l r by (simp add: algebra_simps)
    have s: "compareLocalAsc l r = 1" using gt by (simp add: compareLocalAsc_def)
    have l': "l - 1 * \<bar>a - b\<bar> * ms_per_day = b * 86400000 + p"
      using ab l by (simp add: ms_per_day_def algebra_simps)
    show ?thesis
    proof (cases "p < q")
      case True
      then have "compareLocalAsc (b * 86400000 + p) r = - 1" using r by (simp add: compareLocalAsc_def)
      moreover have "(l - r) div 86400000 = a - b - 1" unfolding lr using dn [of "p - q" "a - b"] True bounds by simp
      ultimately show ?thesis using gt ab unfolding dd s l'
        by (simp add: ms_per_day_def)
    next
      case False
      then have "compareLocalAsc (b * 86400000 + p) r \<noteq> - 1" using r by (simp add: compareLocalAsc_def)
      moreover have "(l - r) div 86400000 = a - b" unfolding lr using dv [of "p - q" "a - b"] False bounds by simp
      ultimately show ?thesis using gt ab unfolding dd s l'
        by (simp add: ms_per_day_def)
    qed
  next
    case eq
    then have "compareLocalAsc l r = 0" by (simp add: compareLocalAsc_def)
    then show ?thesis using eq by (simp add: differenceInDays_def Let_def)
  next
    case lt
    then have ab: "a \<le> b" using l r bounds by linarith
    have lr: "r - l = (b - a) * 86400000 + (q - p)" using l r by (simp add: algebra_simps)
    have s: "compareLocalAsc l r = - 1" using lt by (simp add: compareLocalAsc_def)
    have l': "l - (- 1) * \<bar>a - b\<bar> * ms_per_day = b * 86400000 + p"
      using ab l by (simp add: ms_per_day_def algebra_simps)
    show ?thesis
    proof (cases "q < p")
      case True
      then have "compareLocalAsc (b * 86400000 + p) r = 1" using r by (simp add: compareLocalAsc_def)
      moreover have "(r - l) div 86400000 = b - a - 1" unfolding lr using dn [of "q - p" "b - a"] True bounds by simp
      ultimately show ?thesis using lt ab unfolding dd s l'
        by (simp add: ms_per_day_def)
    next
      case False
      then have "compareLocalAsc (b * 86400000 + p) r \<noteq> 1" using r by (simp add: compareLocalAsc_def)
      moreover have "(r - l) div 86400000 = b - a" unfolding lr using dv [of "q - p" "b - a"] False bounds by simp
      ultimately show ?thesis using lt ab unfolding dd s l'
        by (simp add: ms_per_day_def)
    qed
  qed
qed


lemma startOfDay_div: "startOfDay n = (n div ms_per_day) * ms_per_day"
  by (simp add: startOfDay_def minus_mod_eq_div_mult)

lemma stale_iff:
  "1 < differenceInDays (startOfDay n) t \<longleftrightarrow> 2 * ms_per_day \<le> startOfDay n - t"
proof (cases "t \<le> startOfDay n")
  case True
  have "1 < (startOfDay n - t) div ms_per_day \<longleftrightarrow> 2 * ms_per_day \<le> startOfDay n - t"
    by (simp add: ms_per_day_def) linarith
  then show ?thesis using True by (simp add: differenceInDays_trunc)
next
  case False
  then have "0 \<le> (t - startOfDay n) div ms_per_day"
    by (simp add: ms_per_day_def)
  then show ?thesis using False by (simp add: differenceInDays_trunc ms_per_day_def)
qed

lemma calendar_gap:
  "differenceInCalendarDays n t * ms_per_day = startOfDay n - t + t mod ms_per_day"
proof -
  have "startOfDay n - startOfDay t = (n div ms_per_day - t div ms_per_day) * ms_per_day"
    by (simp add: startOfDay_div algebra_simps)
  then show ?thesis
    by (simp add: calendar_days_div startOfDay_def)
qed

lemma stale_if_three_days: "3 \<le> differenceInCalendarDays n t \<Longrightarrow> 1 < differenceInDays (startOfDay n) t"
proof -
  assume a: "3 \<le> differenceInCalendarDays n t"
  have "t mod ms_per_day < ms_per_day" by (simp add: ms_per_day_def)
  moreover have "3 * ms_per_day \<le> differenceInCalendarDays n t * ms_per_day"
    using a by (simp add: ms_per_day_def)
  ultimately show ?thesis unfolding stale_iff calendar_gap by linarith
qed

lemma stale_only_if_two_days: "1 < differenceInDays (startOfDay n) t \<Longrightarrow> 2 \<le> differenceInCalendarDays n t"
proof -
  assume "1 < differenceInDays (startOfDay n) t"
  then have "2 * ms_per_day \<le> startOfDay n - t" by (simp add: stale_iff)
  moreover have "0 \<le> t mod ms_per_day" by (simp add: ms_per_day_def)
  ultimately have "2 * ms_per_day \<le> differenceInCalendarDays n t * ms_per_day"
    unfolding calendar_gap by linarith
  then show ?thesis by (simp add: ms_per_day_def)
qed

lemma fresh_below_three_days: "\<not> 1 < differenceInDays (startOfDay n) t \<Longrightarrow> differenceInCalendarDays n t < 3"
  using stale_if_three_days [of n t] by linarith

lemma future_not_positive: "startOfDay n \<le> t \<Longrightarrow> differenceInDays (startOfDay n) t \<le> 0"
proof -
  assume a: "startOfDay n \<le> t"
  then have "0 \<le> (t - startOfDay n) div ms_per_day" by (simp add: ms_per_day_def)
  then show ?thesis using a by (auto simp: differenceInDays_trunc)
qed

subsection \<open>The loop and the paths of a run\<close>

lemma loop_readable:
  "\<forall>r\<in>set rows. \<not> unreadable p r \<Longrightarrow>
     childrenToUpdate_loop p sod rows acc = Inr (acc @ map child_id (filter (needs_reset p sod) rows))"
proof (induction rows arbitrary: acc)
  case Nil
  then show ?case by simp
next
  case (Cons child rest)
  then have rest: "\<And>acc'. childrenToUpdate_loop p sod rest acc'
      = Inr (acc' @ map child_id (filter (needs_reset p sod) rest))"
    by simp
  from Cons.prems have "\<not> unreadable p child" by simp
  then have ok: "\<And>s. last_check_in child = Some s \<Longrightarrow> s \<noteq> [] \<Longrightarrow> p s \<noteq> None"
    by (simp add: unreadable_def)
  have nr: "needs_reset p sod child =
     (case last_check_in child of None \<Rightarrow> True
      | Some s \<Rightarrow> s = [] \<or> (case p s of None \<Rightarrow> False | Some t \<Rightarrow> 1 < differenceInDays sod t))"
    by (simp add: needs_reset_def)
  show ?case
  proof (cases "last_check_in child")
    case None
    then show ?thesis by (simp add: rest nr)
  next
    case (Some s)
    show ?thesis
    proof (cases "s = []")
      case True
      then show ?thesis using Some by (simp add: rest nr)
    next
      case False
      then obtain t where "p s = Some t" using ok [OF Some] by blast
      then show ?thesis using Some False by (simp add: rest nr)
    qed
  qed
qed

lemma loop_unreadable:
  "\<exists>r\<in>set rows. unreadable p r \<Longrightarrow>
     childrenToUpdate_loop p sod rows acc = Inl (Error invalid_time_value)"
proof (induction rows arbitrary: acc)
  case Nil
  then show ?case by simp
next
  case (Cons child rest)
  show ?case
  proof (cases "unreadable p child")
    case True
    then obtain s where "last_check_in child = Some s" "s \<noteq> []" "p s = None"
      by (auto simp: unreadable_def split: option.splits)
    then show ?thesis by simp
  next
    case False
    with Cons.prems have "\<exists>r\<in>set rest. unreadable p r" by simp
    then have rest: "\<And>acc'. childrenToUpdate_loop p sod rest acc' = Inl (Error invalid_time_value)"
      using Cons.IH by blast
    show ?thesis
    proof (cases "last_check_in child")
      case None
      then show ?thesis by (simp add: rest)
    next
      case (Some s)
      then show ?thesis using False
        by (cases "p s") (simp_all add: rest unreadable_def)
    qed
  qed
qed

lemma loop_cases:
  "childrenToUpdate_loop p (startOfDay (now w)) (loaded w) [] =
     (if \<exists>r\<in>set (loaded w). unreadable p r then Inl (Error invalid_time_value)
      else Inr (to_reset p w))"
  by (simp add: loop_readable loop_unreadable to_reset_def)


lemma try_select:
  "try_block p w =
     (case select_reply w of
        Rejected x \<Rightarrow> (Inl x, w\<lparr>calls := calls w @ [Select]\<rparr>)
      | Refused e \<Rightarrow> (Inr (failure (message_of e)), w\<lparr>calls := calls w @ [Select]\<rparr>)
      | Done \<Rightarrow>
          (case childrenToUpdate_loop p (startOfDay (now w)) (loaded w) [] of
             Inl x \<Rightarrow> (Inl x, w\<lparr>calls := calls w @ [Select]\<rparr>)
           | Inr ids \<Rightarrow>
               if ids = [] then (Inr no_corrections, w\<lparr>calls := calls w @ [Select]\<rparr>)
               else
                 (case update_reply w of
                    Rejected x \<Rightarrow> (Inl x, w\<lparr>calls := calls w @ [Select, Update ids]\<rparr>)
                  | Refused e \<Rightarrow>
                      (Inr (failure (message_of e)), w\<lparr>calls := calls w @ [Select, Update ids]\<rparr>)
                  | Done \<Rightarrow>
                      (Inr \<lparr>success = True, message = Some (reset_message (length ids)),
                            resetChildren = Some ids, error = None\<rparr>,
                       w\<lparr>calls := calls w @ [Select, Update ids],
                         child_progress_table := map (set_streak_zero ids) (child_progress_table w)\<rparr>))))"
  by (simp add: try_block_def select_streak_gt_0_def update_streak_0_in_def Let_def loaded_def
      no_corrections_def split: reply.splits sum.splits)

lemma run_select_rejected:
  "select_reply w = Rejected x \<Longrightarrow>
     correctExistingStreakCounts p w = (failure (catch_message x), w\<lparr>calls := calls w @ [Select]\<rparr>)"
  by (simp add: correctExistingStreakCounts_def try_select)

lemma run_select_refused:
  "select_reply w = Refused e \<Longrightarrow>
     correctExistingStreakCounts p w = (failure (message_of e), w\<lparr>calls := calls w @ [Select]\<rparr>)"
  by (simp add: correctExistingStreakCounts_def try_select)

lemma run_unreadable:
  "select_reply w = Done \<Longrightarrow> \<exists>r\<in>set (loaded w). unreadable p r \<Longrightarrow>
     correctExistingStreakCounts p w
       = (failure (catch_message (Error invalid_time_value)), w\<lparr>calls := calls w @ [Select]\<rparr>)"
  by (simp add: correctExistingStreakCounts_def try_select loop_cases)

lemma run_nothing:
  "select_reply w = Done \<Longrightarrow> \<forall>r\<in>set (loaded w). \<not> unreadable p r \<Longrightarrow> to_reset p w = [] \<Longrightarrow>
     correctExistingStreakCounts p w = (no_corrections, w\<lparr>calls := calls w @ [Select]\<rparr>)"
  by (simp add: correctExistingStreakCounts_def try_select loop_cases)

lemma run_update_rejected:
  "select_reply w = Done \<Longrightarrow> \<forall>r\<in>set (loaded w). \<not> unreadable p r \<Longrightarrow> to_reset p w \<noteq> [] \<Longrightarrow>
   update_reply w = Rejected x \<Longrightarrow>
     correctExistingStreakCounts p w
       = (failure (catch_message x), w\<lparr>calls := calls w @ [Select, Update (to_reset p w)]\<rparr>)"
  by (simp add: correctExistingStreakCounts_def try_select loop_cases)

lemma run_update_refused:
  "select_reply w = Done \<Longrightarrow> \<forall>r\<in>set (loaded w). \<not> unreadable p r \<Longrightarrow> to_reset p w \<noteq> [] \<Longrightarrow>
   update_reply w = Refused e \<Longrightarrow>
     correctExistingStreakCounts p w
       = (failure (message_of e), w\<lparr>calls := calls w @ [Select, Update (to_reset p w)]\<rparr>)"
  by (simp add: correctExistingStreakCounts_def try_select loop_cases)

lemma run_update_done:
  "select_reply w = Done \<Longrightarrow> \<forall>r\<in>set (loaded w). \<not> unreadable p r \<Longrightarrow> to_reset p w \<noteq> [] \<Longrightarrow>
   update_reply w = Done \<Longrightarrow>
     correctExistingStreakCounts p w
       = (\<lparr>success = True, message = Some (reset_message (length (to_reset p w))),
           resetChildren = Some (to_reset p w), error = None\<rparr>,
          w\<lparr>calls := calls w @ [Select, Update (to_reset p w)],
            child_progress_table := map (set_streak_zero (to_reset p w)) (child_progress_table w)\<rparr>)"
  by (simp add: correctExistingStreakCounts_def try_select loop_cases)

subsection \<open>Failures of the store and thrown errors\<close>

lemma reply_message_not_done: "rp \<noteq> Done \<Longrightarrow> \<exists>m. reply_message rp = Some m"
  by (cases rp) (simp_all add: reply_message_def)

lemma run_select_failed:
  "select_reply w \<noteq> Done \<Longrightarrow>
     correctExistingStreakCounts p w
       = (\<lparr>success = False, message = None, resetChildren = None,
            error = reply_message (select_reply w)\<rparr>, w\<lparr>calls := calls w @ [Select]\<rparr>)"
  by (cases "select_reply w")
     (simp_all add: run_select_rejected run_select_refused reply_message_def failure_def)

lemma loop_result:
  "childrenToUpdate_loop p (startOfDay (now w)) (loaded w) [] = Inr ids \<Longrightarrow>
     (\<forall>r\<in>set (loaded w). \<not> unreadable p r) \<and> ids = to_reset p w"
  by (simp add: loop_cases split: if_splits)

lemma run_update_failed:
  "select_reply w = Done \<Longrightarrow> \<forall>r\<in>set (loaded w). \<not> unreadable p r \<Longrightarrow> to_reset p w \<noteq> [] \<Longrightarrow>
   update_reply w \<noteq> Done \<Longrightarrow>
     correctExistingStreakCounts p w
       = (\<lparr>success = False, message = None, resetChildren = None,
            error = reply_message (update_reply w)\<rparr>,
          w\<lparr>calls := calls w @ [Select, Update (to_reset p w)]\<rparr>)"
  by (cases "update_reply w")
     (simp_all add: run_update_rejected run_update_refused reply_message_def failure_def)

text \<open>
  C5, as the code has it. When the bulk read fails (the store answers with an error object, or
  the awaited call rejects), the job returns \<^verbatim>\<open>success: false\<close> with the \<^verbatim>\<open>error\<close> field
  set to the text carried by that failure (the store's message, the thrown error's message,
  or "Unknown error occurred"), issues the select and no other call, and leaves the table as
  it was.
\<close>

theorem read_failure_is_reported:
  assumes "select_reply w \<noteq> Done"
  shows "fst (correctExistingStreakCounts p w)
           = \<lparr>success = False, message = None, resetChildren = None,
              error = reply_message (select_reply w)\<rparr>
         \<and> reply_message (select_reply w) \<noteq> None
         \<and> calls (snd (correctExistingStreakCounts p w)) = calls w @ [Select]
         \<and> child_progress_table (snd (correctExistingStreakCounts p w)) = child_progress_table w"
  using assms reply_message_not_done [of "select_reply w"]
  by (auto simp: run_select_failed)

theorem read_failure_is_reported_witness:
  "fst (correctExistingStreakCounts parseISO_local
          (world_of [row_three_days_ago] (Refused (PgError ''network down'')) Done))
     = \<lparr>success = False, message = None, resetChildren = None, error = Some ''network down''\<rparr>
   \<and> calls (snd (correctExistingStreakCounts parseISO_local
          (world_of [row_three_days_ago] (Refused (PgError ''network down'')) Done))) = [Select]
   \<and> child_progress_table (snd (correctExistingStreakCounts parseISO_local
          (world_of [row_three_days_ago] (Refused (PgError ''network down'')) Done)))
     = [row_three_days_ago]"
proof -
  let ?w = "world_of [row_three_days_ago] (Refused (PgError ''network down'')) Done"
  have h: "select_reply ?w \<noteq> Done" by (simp add: world_of_def)
  have m: "reply_message (select_reply ?w) = Some ''network down''"
    by (simp add: world_of_def reply_message_def)
  have c: "calls ?w = []" "child_progress_table ?w = [row_three_days_ago]"
    by (simp_all add: world_of_def)
  show ?thesis
    using read_failure_is_reported [OF h, of parseISO_local] unfolding m c by simp
qed

text \<open>
  C5 as stated asks for a non-empty message. The job copies the message of the read error
  as it is: a read error whose message is the empty string gives an empty \<^verbatim>\<open>error\<close> field.
\<close>

theorem read_failure_empty_message_counterexample:
  "error (fst (correctExistingStreakCounts parseISO_local
                 (world_of [row_three_days_ago] (Refused (PgError [])) Done))) = Some []"
  by code_simp

text \<open>
  C4. After a successful read that classified at least one row, a failed batched update (the
  store answers with an error object, or the awaited call rejects) leaves the table as it
  was, and the job returns \<^verbatim>\<open>success: false\<close> with the failure's text in \<^verbatim>\<open>error\<close>. The one
  write call issued is the batched update for the classified identifiers. That a failed
  update changes no row is the store's behaviour as the specification gives it.
\<close>

theorem write_failure_changes_nothing:
  assumes "select_reply w = Done"
    and "childrenToUpdate_loop p (startOfDay (now w)) (loaded w) [] = Inr ids"
    and "ids \<noteq> []"
    and "update_reply w \<noteq> Done"
  shows "child_progress_table (snd (correctExistingStreakCounts p w)) = child_progress_table w
         \<and> fst (correctExistingStreakCounts p w)
             = \<lparr>success = False, message = None, resetChildren = None,
                error = reply_message (update_reply w)\<rparr>
         \<and> reply_message (update_reply w) \<noteq> None
         \<and> calls (snd (correctExistingStreakCounts p w)) = calls w @ [Select, Update ids]"
proof -
  from assms(2) have ok: "\<forall>r\<in>set (loaded w). \<not> unreadable p r" and ids: "ids = to_reset p w"
    using loop_result by blast+
  from assms(3) ids have ne: "to_reset p w \<noteq> []" by simp
  show ?thesis
    using reply_message_not_done [OF assms(4)]
    by (auto simp: run_update_failed [OF assms(1) ok ne assms(4)] ids)
qed

theorem write_failure_changes_nothing_witness:
  "child_progress_table (snd (correctExistingStreakCounts parseISO_local
      (world_of [row_three_days_ago, row_yesterday] Done (Refused (PgError ''timeout'')))))
     = [row_three_days_ago, row_yesterday]
   \<and> fst (correctExistingStreakCounts parseISO_local
      (world_of [row_three_days_ago, row_yesterday] Done (Refused (PgError ''timeout''))))
     = \<lparr>success = False, message = None, resetChildren = None, error = Some ''timeout''\<rparr>
   \<and> calls (snd (correctExistingStreakCounts parseISO_local
      (world_of [row_three_days_ago, row_yesterday] Done (Refused (PgError ''timeout'')))))
     = [Select, Update [''A'']]"
proof -
  let ?w = "world_of [row_three_days_ago, row_yesterday] Done (Refused (PgError ''timeout''))"
  have h1: "select_reply ?w = Done" by (simp add: world_of_def)
  have h2: "childrenToUpdate_loop parseISO_local (startOfDay (now ?w)) (loaded ?w) [] = Inr [''A'']"
    by code_simp
  have h3: "[''A''] \<noteq> ([] :: string list)" by simp
  have h4: "update_reply ?w \<noteq> Done" by (simp add: world_of_def)
  have m: "reply_message (update_reply ?w) = Some ''timeout''"
    by (simp add: world_of_def reply_message_def)
  have c: "calls ?w = []" "child_progress_table ?w = [row_three_days_ago, row_yesterday]"
    by (simp_all add: world_of_def)
  show ?thesis
    using write_failure_changes_nothing [OF h1 h2 h3 h4] unfolding m c by simp
qed

text \<open>
  C3, as the code has it. When the read succeeds and the loop classifies no row, the job
  issues the select and no write, leaves the table as it was, and returns \<^verbatim>\<open>success: true\<close>
  with the message "No streak count corrections needed"; the result has no
  \<^verbatim>\<open>resetChildren\<close> field.
\<close>

theorem nothing_to_correct:
  assumes "select_reply w = Done"
    and "childrenToUpdate_loop p (startOfDay (now w)) (loaded w) [] = Inr []"
  shows "calls (snd (correctExistingStreakCounts p w)) = calls w @ [Select]
         \<and> child_progress_table (snd (correctExistingStreakCounts p w)) = child_progress_table w
         \<and> fst (correctExistingStreakCounts p w)
             = \<lparr>success = True, message = Some ''No streak count corrections needed'',
                resetChildren = None, error = None\<rparr>"
proof -
  from assms(2) have ok: "\<forall>r\<in>set (loaded w). \<not> unreadable p r" and ids: "to_reset p w = []"
    using loop_result by fastforce+
  show ?thesis
    by (simp add: run_nothing [OF assms(1) ok ids] no_corrections_def)
qed

theorem nothing_to_correct_witness:
  "calls (snd (correctExistingStreakCounts parseISO_local (world_of [row_yesterday] Done Done)))
     = [Select]
   \<and> child_progress_table (snd (correctExistingStreakCounts parseISO_local
        (world_of [row_yesterday] Done Done))) = [row_yesterday]
   \<and> fst (correctExistingStreakCounts parseISO_local (world_of [row_yesterday] Done Done))
     = \<lparr>success = True, message = Some ''No streak count corrections needed'',
        resetChildren = None, error = None\<rparr>"
proof -
  let ?w = "world_of [row_yesterday] Done Done"
  have h1: "select_reply ?w = Done" by (simp add: world_of_def)
  have h2: "childrenToUpdate_loop parseISO_local (startOfDay (now ?w)) (loaded ?w) [] = Inr []"
    by code_simp
  have c: "calls ?w = []" "child_progress_table ?w = [row_yesterday]"
    by (simp_all add: world_of_def)
  show ?thesis
    using nothing_to_correct [OF h1 h2] unfolding c by simp
qed

text \<open>
  C3 as stated promises an empty correction list. With one record checked in yesterday no
  record is classified, and the result carries no \<^verbatim>\<open>resetChildren\<close> at all.
\<close>

theorem nothing_to_correct_counterexample:
  "childrenToUpdate_loop parseISO_local (startOfDay today_example) [row_yesterday] [] = Inr []
   \<and> resetChildren (fst (correctExistingStreakCounts parseISO_local
        (world_of [row_yesterday] Done Done))) \<noteq> Some []"
  by code_simp

text \<open>
  C9. The job never lets an exception out: whatever is thrown inside the \<^verbatim>\<open>try\<close> block
  becomes \<^verbatim>\<open>success: false\<close> with the thrown Error's message, or "Unknown error occurred"
  for a thrown value that is not an Error. The three places that can throw are the select, the
  log line on an unreadable date, and the update. Every run ends in a result that is either
  a success without \<^verbatim>\<open>error\<close> or a failure with one.
\<close>

theorem thrown_errors_become_results:
  "(fst (try_block p w) = Inl x \<longrightarrow>
      fst (correctExistingStreakCounts p w) = failure (catch_message x))
   \<and> (fst (try_block p w) = Inr r \<longrightarrow> fst (correctExistingStreakCounts p w) = r)
   \<and> catch_message (Error m) = m
   \<and> catch_message NotAnError = ''Unknown error occurred''
   \<and> (select_reply w = Rejected x \<longrightarrow>
        fst (correctExistingStreakCounts p w) = failure (catch_message x))
   \<and> (select_reply w = Done \<and> (\<exists>r\<in>set (loaded w). unreadable p r) \<longrightarrow>
        fst (correctExistingStreakCounts p w) = failure invalid_time_value)
   \<and> (select_reply w = Done \<and> (\<forall>r\<in>set (loaded w). \<not> unreadable p r) \<and> to_reset p w \<noteq> []
        \<and> update_reply w = Rejected x \<longrightarrow>
        fst (correctExistingStreakCounts p w) = failure (catch_message x))
   \<and> ((success (fst (correctExistingStreakCounts p w))
         \<and> error (fst (correctExistingStreakCounts p w)) = None)
       \<or> (\<exists>msg. fst (correctExistingStreakCounts p w) = failure msg))"
proof -
  have a: "fst (try_block p w) = Inl x \<longrightarrow>
      fst (correctExistingStreakCounts p w) = failure (catch_message x)"
    by (cases "try_block p w") (auto simp: correctExistingStreakCounts_def)
  have b: "fst (try_block p w) = Inr r \<longrightarrow> fst (correctExistingStreakCounts p w) = r"
    by (cases "try_block p w") (auto simp: correctExistingStreakCounts_def)
  have c: "catch_message (Error m) = m" "catch_message NotAnError = ''Unknown error occurred''"
    by (simp_all add: catch_message_def)
  have d: "select_reply w = Rejected x \<longrightarrow>
        fst (correctExistingStreakCounts p w) = failure (catch_message x)"
    by (simp add: run_select_rejected)
  have e: "select_reply w = Done \<and> (\<exists>r\<in>set (loaded w). unreadable p r) \<longrightarrow>
        fst (correctExistingStreakCounts p w) = failure invalid_time_value"
    by (auto simp: run_unreadable catch_message_def)
  have f: "select_reply w = Done \<and> (\<forall>r\<in>set (loaded w). \<not> unreadable p r) \<and> to_reset p w \<noteq> []
        \<and> update_reply w = Rejected x \<longrightarrow>
        fst (correctExistingStreakCounts p w) = failure (catch_message x)"
    by (auto simp: run_update_rejected)
  have g: "(success (fst (correctExistingStreakCounts p w))
         \<and> error (fst (correctExistingStreakCounts p w)) = None)
       \<or> (\<exists>msg. fst (correctExistingStreakCounts p w) = failure msg)"
    by (auto simp: correctExistingStreakCounts_def try_select no_corrections_def
        split: reply.splits sum.splits)
  show ?thesis using a b c d e f g by blast
qed

theorem thrown_errors_become_results_witness:
  "fst (correctExistingStreakCounts parseISO_local
          (world_of [row_yesterday, row_unreadable] Done Done))
     = \<lparr>success = False, message = None, resetChildren = None, error = Some ''Invalid time value''\<rparr>
   \<and> fst (correctExistingStreakCounts parseISO_local
          (world_of [row_yesterday] (Rejected NotAnError) Done))
     = \<lparr>success = False, message = None, resetChildren = None,
        error = Some ''Unknown error occurred''\<rparr>
   \<and> fst (correctExistingStreakCounts parseISO_local
          (world_of [row_no_check_in] Done (Rejected (Error ''fetch failed''))))
     = \<lparr>success = False, message = None, resetChildren = None, error = Some ''fetch failed''\<rparr>"
proof -
  let ?w = "world_of [row_yesterday, row_unreadable] Done Done"
  let ?v = "world_of [row_yesterday] (Rejected NotAnError) Done"
  let ?u = "world_of [row_no_check_in] Done (Rejected (Error ''fetch failed''))"
  have h: "select_reply ?w = Done \<and> (\<exists>r\<in>set (loaded ?w). unreadable parseISO_local r)"
    by code_simp
  have "fst (correctExistingStreakCounts parseISO_local ?w) = failure invalid_time_value"
    using thrown_errors_become_results [of parseISO_local ?w] h by blast
  then have one: "fst (correctExistingStreakCounts parseISO_local ?w)
      = \<lparr>success = False, message = None, resetChildren = None, error = Some ''Invalid time value''\<rparr>"
    by (simp add: failure_def invalid_time_value_def)
  have "select_reply ?v = Rejected NotAnError" by (simp add: world_of_def)
  then have "fst (correctExistingStreakCounts parseISO_local ?v) = failure (catch_message NotAnError)"
    using thrown_errors_become_results [of parseISO_local ?v NotAnError] by blast
  then have two: "fst (correctExistingStreakCounts parseISO_local ?v)
      = \<lparr>success = False, message = None, resetChildren = None,
         error = Some ''Unknown error occurred''\<rparr>"
    by (simp add: failure_def catch_message_def)
  have k: "select_reply ?u = Done \<and> (\<forall>r\<in>set (loaded ?u). \<not> unreadable parseISO_local r)
      \<and> to_reset parseISO_local ?u \<noteq> [] \<and> update_reply ?u = Rejected (Error ''fetch failed'')"
    by code_simp
  have "fst (correctExistingStreakCounts parseISO_local ?u)
      = failure (catch_message (Error ''fetch failed''))"
    using thrown_errors_become_results [of parseISO_local ?u "Error ''fetch failed''"] k by blast
  then have three: "fst (correctExistingStreakCounts parseISO_local ?u)
      = \<lparr>success = False, message = None, resetChildren = None, error = Some ''fetch failed''\<rparr>"
    by (simp add: failure_def catch_message_def)
  show ?thesis using one two three by blast
qed

subsection \<open>The table after a run\<close>

lemma set_streak_zero_nil: "map (set_streak_zero []) rows = rows"
  by (induction rows) (simp_all add: set_streak_zero_def)

lemma final_table:
  "child_progress_table (snd (correctExistingStreakCounts p w)) =
     (if run_completes p w then map (set_streak_zero (to_reset p w)) (child_progress_table w)
      else child_progress_table w)"
proof (cases "select_reply w = Done")
  case False
  then show ?thesis by (simp add: run_select_failed run_completes_def)
next
  case sel: True
  show ?thesis
  proof (cases "\<forall>r\<in>set (loaded w). \<not> unreadable p r")
    case False
    then have ex: "\<exists>r\<in>set (loaded w). unreadable p r" by blast
    have nc: "\<not> run_completes p w" using False by (simp add: run_completes_def)
    show ?thesis by (simp add: run_unreadable [OF sel ex] nc)
  next
    case ok: True
    show ?thesis
    proof (cases "to_reset p w = []")
      case True
      then show ?thesis using sel ok
        by (simp add: run_nothing run_completes_def set_streak_zero_nil)
    next
      case ne: False
      show ?thesis
      proof (cases "update_reply w = Done")
        case True
        then show ?thesis using sel ok ne by (simp add: run_update_done run_completes_def)
      next
        case False
        then show ?thesis using sel ok ne by (simp add: run_update_failed run_completes_def)
      qed
    qed
  qed
qed

lemma success_iff_completes: "success (fst (correctExistingStreakCounts p w)) \<longleftrightarrow> run_completes p w"
proof (cases "select_reply w = Done")
  case False
  then show ?thesis by (simp add: run_select_failed run_completes_def)
next
  case sel: True
  show ?thesis
  proof (cases "\<forall>r\<in>set (loaded w). \<not> unreadable p r")
    case False
    then have ex: "\<exists>r\<in>set (loaded w). unreadable p r" by blast
    have nc: "\<not> run_completes p w" using False by (simp add: run_completes_def)
    show ?thesis by (simp add: run_unreadable [OF sel ex] nc failure_def)
  next
    case ok: True
    show ?thesis
    proof (cases "to_reset p w = []")
      case True
      then show ?thesis using sel ok
        by (simp add: run_nothing run_completes_def no_corrections_def)
    next
      case ne: False
      show ?thesis
      proof (cases "update_reply w = Done")
        case True
        then show ?thesis using sel ok ne by (simp add: run_update_done run_completes_def)
      next
        case False
        then show ?thesis using sel ok ne by (simp add: run_update_failed run_completes_def)
      qed
    qed
  qed
qed

lemma run_keeps_setting:
  "now (snd (correctExistingStreakCounts p w)) = now w"
  "select_reply (snd (correctExistingStreakCounts p w)) = select_reply w"
  "update_reply (snd (correctExistingStreakCounts p w)) = update_reply w"
  by (simp_all add: correctExistingStreakCounts_def try_select split: reply.splits sum.splits)

lemma in_to_reset:
  "child_id r \<in> set (to_reset p w) \<longleftrightarrow>
     (\<exists>r'\<in>set (child_progress_table w). child_id r' = child_id r \<and> 0 < streak_count r'
        \<and> needs_reset p (startOfDay (now w)) r')"
  by (auto simp: to_reset_def loaded_def intro: rev_image_eqI)

lemma loaded_after_reset:
  assumes "child_progress_table v = map (set_streak_zero (to_reset p w)) (child_progress_table w)"
    and "r \<in> set (loaded v)"
  shows "r \<in> set (loaded w) \<and> \<not> needs_reset p (startOfDay (now w)) r"
proof -
  from assms obtain r0 where r0: "r0 \<in> set (child_progress_table w)"
      "r = set_streak_zero (to_reset p w) r0" "0 < streak_count r"
    by (auto simp: loaded_def)
  then have notin: "child_id r0 \<notin> set (to_reset p w)"
    by (auto simp: set_streak_zero_def split: if_splits)
  then have eq: "r = r0" using r0 by (simp add: set_streak_zero_def)
  then have "r \<in> set (loaded w)" using r0 by (simp add: loaded_def)
  moreover have "\<not> needs_reset p (startOfDay (now w)) r"
    using notin r0 eq by (auto simp: in_to_reset)
  ultimately show ?thesis by simp
qed

lemma settled_table:
  assumes tab: "child_progress_table v = map (set_streak_zero (to_reset p w)) (child_progress_table w)"
    and clock: "now v = now w"
    and ok: "\<forall>r\<in>set (loaded w). \<not> unreadable p r"
  shows "child_progress_table (snd (correctExistingStreakCounts p v)) = child_progress_table v"
proof -
  have "filter (needs_reset p (startOfDay (now v))) (loaded v) = []"
    using loaded_after_reset [OF tab] clock by (auto simp: filter_empty_conv)
  then have "to_reset p v = []" by (simp add: to_reset_def)
  then show ?thesis by (simp add: final_table set_streak_zero_nil)
qed

text \<open>
  C6. With the clock and the store's behaviour fixed, a second run of the job leaves the
  table exactly as the first run left it. After a first run that succeeded, a further run at the
  same clock changes nothing however the store answers it.
\<close>

theorem run_twice_is_run_once:
  "child_progress_table (snd (correctExistingStreakCounts p (snd (correctExistingStreakCounts p w))))
     = child_progress_table (snd (correctExistingStreakCounts p w))
   \<and> (success (fst (correctExistingStreakCounts p w)) \<longrightarrow>
        child_progress_table (snd (correctExistingStreakCounts p
            ((snd (correctExistingStreakCounts p w))\<lparr>select_reply := sr, update_reply := ur\<rparr>)))
          = child_progress_table (snd (correctExistingStreakCounts p w)))"
proof -
  let ?v = "snd (correctExistingStreakCounts p w)"
  let ?u = "?v\<lparr>select_reply := sr, update_reply := ur\<rparr>"
  have first: "child_progress_table (snd (correctExistingStreakCounts p ?v)) = child_progress_table ?v"
  proof (cases "run_completes p w")
    case True
    then have "child_progress_table ?v = map (set_streak_zero (to_reset p w)) (child_progress_table w)"
      by (simp add: final_table)
    moreover have "\<forall>r\<in>set (loaded w). \<not> unreadable p r" using True by (simp add: run_completes_def)
    ultimately show ?thesis using settled_table [of ?v p w] by (simp add: run_keeps_setting)
  next
    case False
    then have same: "child_progress_table ?v = child_progress_table w" by (simp add: final_table)
    then have "loaded ?v = loaded w" by (simp add: loaded_def)
    then have "to_reset p ?v = to_reset p w" by (simp add: to_reset_def run_keeps_setting)
    then have "run_completes p ?v = run_completes p w"
      using \<open>loaded ?v = loaded w\<close> by (simp add: run_completes_def run_keeps_setting)
    then show ?thesis using False by (simp add: final_table)
  qed
  have second: "child_progress_table (snd (correctExistingStreakCounts p ?u)) = child_progress_table ?v"
    if "success (fst (correctExistingStreakCounts p w))"
  proof -
    from that have c: "run_completes p w" by (simp add: success_iff_completes)
    then have "child_progress_table ?u = map (set_streak_zero (to_reset p w)) (child_progress_table w)"
      by (simp add: final_table)
    moreover have "now ?u = now w" by (simp add: run_keeps_setting)
    moreover have "\<forall>r\<in>set (loaded w). \<not> unreadable p r" using c by (simp add: run_completes_def)
    ultimately have "child_progress_table (snd (correctExistingStreakCounts p ?u)) = child_progress_table ?u"
      by (rule settled_table)
    then show ?thesis by simp
  qed
  show ?thesis using first second by blast
qed

theorem run_twice_is_run_once_witness:
  "child_progress_table (snd (correctExistingStreakCounts parseISO_local
      (snd (correctExistingStreakCounts parseISO_local
         (world_of [row_three_days_ago, row_yesterday, row_no_check_in] Done Done)))))
     = [row_three_days_ago\<lparr>streak_count := 0\<rparr>, row_yesterday, row_no_check_in\<lparr>streak_count := 0\<rparr>]
   \<and> child_progress_table (snd (correctExistingStreakCounts parseISO_local
      ((snd (correctExistingStreakCounts parseISO_local
         (world_of [row_three_days_ago, row_yesterday, row_no_check_in] Done Done)))
       \<lparr>select_reply := Done, update_reply := Refused (PgError ''later'')\<rparr>)))
     = [row_three_days_ago\<lparr>streak_count := 0\<rparr>, row_yesterday, row_no_check_in\<lparr>streak_count := 0\<rparr>]"
proof -
  let ?w = "world_of [row_three_days_ago, row_yesterday, row_no_check_in] Done Done"
  have once: "child_progress_table (snd (correctExistingStreakCounts parseISO_local ?w))
      = [row_three_days_ago\<lparr>streak_count := 0\<rparr>, row_yesterday, row_no_check_in\<lparr>streak_count := 0\<rparr>]"
    by code_simp
  have ok: "success (fst (correctExistingStreakCounts parseISO_local ?w))"
    by code_simp
  show ?thesis
    using run_twice_is_run_once [where p = parseISO_local and w = ?w and sr = Done
        and ur = "Refused (PgError ''later'')"] ok
    unfolding once by blast
qed

subsection \<open>Which rows change\<close>

lemma final_length:
  "length (child_progress_table (snd (correctExistingStreakCounts p w))) = length (child_progress_table w)"
  by (simp add: final_table)

lemma final_row:
  "i < length (child_progress_table w) \<Longrightarrow>
     child_progress_table (snd (correctExistingStreakCounts p w)) ! i =
       (if run_completes p w then set_streak_zero (to_reset p w) (child_progress_table w ! i)
        else child_progress_table w ! i)"
  by (simp add: final_table)

lemma unique_row:
  assumes "distinct (map child_id rows)" "r \<in> set rows" "r' \<in> set rows" "child_id r' = child_id r"
  shows "r' = r"
  using assms by (meson distinct_map inj_on_def)

lemma in_to_reset_unique:
  assumes "distinct (map child_id (child_progress_table w))" "r \<in> set (child_progress_table w)"
  shows "child_id r \<in> set (to_reset p w) \<longleftrightarrow> 0 < streak_count r \<and> needs_reset p (startOfDay (now w)) r"
proof
  assume "child_id r \<in> set (to_reset p w)"
  then obtain r' where r': "r' \<in> set (child_progress_table w)" "child_id r' = child_id r"
      "0 < streak_count r'" "needs_reset p (startOfDay (now w)) r'"
    by (auto simp: in_to_reset)
  then have "r' = r" using unique_row [OF assms(1) assms(2)] by blast
  then show "0 < streak_count r \<and> needs_reset p (startOfDay (now w)) r" using r' by simp
next
  assume "0 < streak_count r \<and> needs_reset p (startOfDay (now w)) r"
  then show "child_id r \<in> set (to_reset p w)" using assms(2) by (auto simp: in_to_reset)
qed

lemma fresh_not_reset:
  assumes "last_check_in r = Some s" "s \<noteq> []" "p s = Some t" "differenceInDays sod t \<le> 1"
  shows "\<not> needs_reset p sod r"
  using assms by (simp add: needs_reset_def)

lemma today_or_yesterday_fresh:
  assumes "differenceInCalendarDays n t = 0 \<or> differenceInCalendarDays n t = 1"
  shows "differenceInDays (startOfDay n) t \<le> 1"
  using assms stale_only_if_two_days [of n t] by linarith

lemma reset_row_fields:
  "child_id (set_streak_zero ids r) = child_id r"
  "last_check_in (set_streak_zero ids r) = last_check_in r"
  "child_progress.more (set_streak_zero ids r) = child_progress.more r"
  by (simp_all add: set_streak_zero_def)

text \<open>
  C7. The table keeps its length and, row by row, every field but \<^verbatim>\<open>streak_count\<close>;
  a row either stays as it was or is the old row with \<^verbatim>\<open>streak_count\<close>
  set to 0. With unique identifiers, as the data model has them, no counter grows, only a
  loaded row that the loop classified changes, and a row checked in today or yesterday stays
  as it was, whatever its counter.
\<close>

theorem only_classified_rows_change:
  assumes "i < length (child_progress_table w)"
    and "r = child_progress_table w ! i"
    and "r' = child_progress_table (snd (correctExistingStreakCounts p w)) ! i"
  shows "length (child_progress_table (snd (correctExistingStreakCounts p w)))
           = length (child_progress_table w)
         \<and> child_id r' = child_id r \<and> last_check_in r' = last_check_in r
         \<and> child_progress.more r' = child_progress.more r
         \<and> (r' = r \<or> r' = r\<lparr>streak_count := 0\<rparr>)
         \<and> (distinct (map child_id (child_progress_table w)) \<longrightarrow>
              streak_count r' \<le> streak_count r
              \<and> (r' \<noteq> r \<longrightarrow> 0 < streak_count r \<and> needs_reset p (startOfDay (now w)) r)
              \<and> (\<forall>s t. last_check_in r = Some s \<and> s \<noteq> [] \<and> p s = Some t
                     \<and> (differenceInCalendarDays (now w) t = 0
                        \<or> differenceInCalendarDays (now w) t = 1)
                   \<longrightarrow> r' = r))"
proof -
  have mem: "r \<in> set (child_progress_table w)" using assms(1,2) by simp
  have r': "r' = (if run_completes p w then set_streak_zero (to_reset p w) r else r)"
    using assms by (simp add: final_row)
  have fields: "child_id r' = child_id r \<and> last_check_in r' = last_check_in r
      \<and> child_progress.more r' = child_progress.more r"
    by (simp add: r' reset_row_fields)
  have either: "r' = r \<or> r' = r\<lparr>streak_count := 0\<rparr>"
    by (simp add: r' set_streak_zero_def)
  have unique: "streak_count r' \<le> streak_count r
      \<and> (r' \<noteq> r \<longrightarrow> 0 < streak_count r \<and> needs_reset p (startOfDay (now w)) r)
      \<and> (\<forall>s t. last_check_in r = Some s \<and> s \<noteq> [] \<and> p s = Some t
             \<and> (differenceInCalendarDays (now w) t = 0 \<or> differenceInCalendarDays (now w) t = 1)
           \<longrightarrow> r' = r)"
    if d: "distinct (map child_id (child_progress_table w))"
  proof -
    have cls: "child_id r \<in> set (to_reset p w) \<longleftrightarrow>
        0 < streak_count r \<and> needs_reset p (startOfDay (now w)) r"
      by (rule in_to_reset_unique [OF d mem])
    have change: "r' \<noteq> r \<longrightarrow> 0 < streak_count r \<and> needs_reset p (startOfDay (now w)) r"
      using cls by (auto simp: r' set_streak_zero_def)
    have le: "streak_count r' \<le> streak_count r"
      using either change by (cases "r' = r") auto
    have fresh: "r' = r" if "last_check_in r = Some s" "s \<noteq> []" "p s = Some t"
        "differenceInCalendarDays (now w) t = 0 \<or> differenceInCalendarDays (now w) t = 1" for s t
    proof -
      have "\<not> needs_reset p (startOfDay (now w)) r"
        using fresh_not_reset [where p = p and r = r and s = s and t = t and sod = "startOfDay (now w)"]
          that(1,2,3) today_or_yesterday_fresh [OF that(4)] by blast
      then show ?thesis using change by blast
    qed
    show ?thesis using le change fresh by blast
  qed
  show ?thesis using final_length [of p w] fields either unique by blast
qed

theorem only_classified_rows_change_witness:
  "child_progress_table (snd (correctExistingStreakCounts parseISO_local
      (world_of [row_three_days_ago, row_yesterday] Done Done))) ! 1 = row_yesterday
   \<and> child_progress_table (snd (correctExistingStreakCounts parseISO_local
      (world_of [row_three_days_ago, row_yesterday] Done Done))) ! 0
       = row_three_days_ago\<lparr>streak_count := 0\<rparr>"
proof -
  let ?w = "world_of [row_three_days_ago, row_yesterday] Done Done"
  let ?T = "child_progress_table (snd (correctExistingStreakCounts parseISO_local ?w))"
  have d: "distinct (map child_id (child_progress_table ?w))" by code_simp
  have i1: "(1::nat) < length (child_progress_table ?w)" by code_simp
  have i0: "(0::nat) < length (child_progress_table ?w)" by code_simp
  have r1: "row_yesterday = child_progress_table ?w ! 1" by code_simp
  have r0: "row_three_days_ago = child_progress_table ?w ! 0" by code_simp
  have y: "last_check_in row_yesterday = Some ''2024-01-16T08:30:00''
      \<and> ''2024-01-16T08:30:00'' \<noteq> []
      \<and> parseISO_local ''2024-01-16T08:30:00'' = Some (local_ms 2024 1 16 8 30 0)
      \<and> (differenceInCalendarDays (now ?w) (local_ms 2024 1 16 8 30 0) = 0
          \<or> differenceInCalendarDays (now ?w) (local_ms 2024 1 16 8 30 0) = 1)"
    by code_simp
  have one: "?T ! 1 = row_yesterday"
    using only_classified_rows_change [OF i1 r1 refl, of parseISO_local] d y by blast
  have changed: "?T ! 0 \<noteq> row_three_days_ago" by code_simp
  have zero: "?T ! 0 = row_three_days_ago\<lparr>streak_count := 0\<rparr>"
    using only_classified_rows_change [OF i0 r0 refl, of parseISO_local] changed by blast
  show ?thesis using one zero by blast
qed

text \<open>
  C10. A loaded row whose check-in is not before the start of today has zero or negative
  elapsed days, and a row with zero or negative elapsed days is not classified; with unique
  identifiers its identifier is not among those reset and the run leaves the row as it was.
  Nothing marks the future date as an error.
\<close>

theorem future_check_in_is_kept:
  assumes "i < length (child_progress_table w)"
    and "r = child_progress_table w ! i"
    and "0 < streak_count r"
    and "last_check_in r = Some s" and "s \<noteq> []" and "p s = Some t"
    and "startOfDay (now w) \<le> t \<or> differenceInDays (startOfDay (now w)) t \<le> 0"
  shows "differenceInDays (startOfDay (now w)) t \<le> 0
         \<and> \<not> needs_reset p (startOfDay (now w)) r
         \<and> (distinct (map child_id (child_progress_table w)) \<longrightarrow>
              child_id r \<notin> set (to_reset p w)
              \<and> child_progress_table (snd (correctExistingStreakCounts p w)) ! i = r
              \<and> (\<forall>ids. resetChildren (fst (correctExistingStreakCounts p w)) = Some ids
                     \<longrightarrow> child_id r \<notin> set ids))"
proof -
  have el: "differenceInDays (startOfDay (now w)) t \<le> 0"
    using assms(7) future_not_positive [of "now w" t] by blast
  then have nr: "\<not> needs_reset p (startOfDay (now w)) r"
    using fresh_not_reset [where p = p and r = r and s = s and t = t and sod = "startOfDay (now w)"]
      assms(4,5,6) by linarith
  have mem: "r \<in> set (child_progress_table w)" using assms(1,2) by simp
  have unique: "child_id r \<notin> set (to_reset p w)
      \<and> child_progress_table (snd (correctExistingStreakCounts p w)) ! i = r
      \<and> (\<forall>ids. resetChildren (fst (correctExistingStreakCounts p w)) = Some ids
             \<longrightarrow> child_id r \<notin> set ids)"
    if d: "distinct (map child_id (child_progress_table w))"
  proof -
    have notin: "child_id r \<notin> set (to_reset p w)"
      using in_to_reset_unique [OF d mem, of p] nr by blast
    then have "set_streak_zero (to_reset p w) r = r" by (simp add: set_streak_zero_def)
    then have same: "child_progress_table (snd (correctExistingStreakCounts p w)) ! i = r"
      using assms(1,2) by (simp add: final_row)
    have "resetChildren (fst (correctExistingStreakCounts p w)) = None
        \<or> resetChildren (fst (correctExistingStreakCounts p w)) = Some (to_reset p w)"
      by (auto simp: correctExistingStreakCounts_def try_select loop_cases failure_def
          no_corrections_def split: reply.splits)
    then have "\<forall>ids. resetChildren (fst (correctExistingStreakCounts p w)) = Some ids
        \<longrightarrow> child_id r \<notin> set ids"
      using notin by auto
    then show ?thesis using notin same by blast
  qed
  show ?thesis using el nr unique by blast
qed

theorem future_check_in_is_kept_witness:
  "differenceInDays (startOfDay today_example) (local_ms 2024 1 20 9 0 0) \<le> 0
   \<and> child_progress_table (snd (correctExistingStreakCounts parseISO_local
        (world_of [row_three_days_ago, row_future] Done Done))) ! 1 = row_future
   \<and> resetChildren (fst (correctExistingStreakCounts parseISO_local
        (world_of [row_three_days_ago, row_future] Done Done))) = Some [''A'']"
proof -
  let ?w = "world_of [row_three_days_ago, row_future] Done Done"
  have d: "distinct (map child_id (child_progress_table ?w))" by code_simp
  have i: "(1::nat) < length (child_progress_table ?w)" by code_simp
  have r: "row_future = child_progress_table ?w ! 1" by code_simp
  have c: "0 < streak_count row_future" by code_simp
  have l: "last_check_in row_future = Some ''2024-01-20T09:00:00''" by code_simp
  have e: "''2024-01-20T09:00:00'' \<noteq> []" by simp
  have q: "parseISO_local ''2024-01-20T09:00:00'' = Some (local_ms 2024 1 20 9 0 0)" by code_simp
  have f: "startOfDay (now ?w) \<le> local_ms 2024 1 20 9 0 0
      \<or> differenceInDays (startOfDay (now ?w)) (local_ms 2024 1 20 9 0 0) \<le> 0" by code_simp
  have n: "now ?w = today_example" by (simp add: world_of_def)
  have res: "resetChildren (fst (correctExistingStreakCounts parseISO_local ?w)) = Some [''A'']"
    by code_simp
  show ?thesis
    using future_check_in_is_kept [where p = parseISO_local and w = ?w, OF i r c l e q f] d res
    unfolding n by blast
qed


subsection \<open>The summary of a run that corrected rows\<close>

lemma applied_run:
  assumes "success (fst (correctExistingStreakCounts p w))"
    and "calls (snd (correctExistingStreakCounts p w)) = calls w @ [Select, Update ids]"
  shows "select_reply w = Done \<and> (\<forall>r\<in>set (loaded w). \<not> unreadable p r)
         \<and> to_reset p w \<noteq> [] \<and> update_reply w = Done \<and> ids = to_reset p w"
proof -
  from assms(1) have c: "run_completes p w" by (simp add: success_iff_completes)
  then have sel: "select_reply w = Done" and ok: "\<forall>r\<in>set (loaded w). \<not> unreadable p r"
    by (simp_all add: run_completes_def)
  have ne: "to_reset p w \<noteq> []"
  proof
    assume "to_reset p w = []"
    then have "calls (snd (correctExistingStreakCounts p w)) = calls w @ [Select]"
      by (simp add: run_nothing [OF sel ok])
    with assms(2) show False by simp
  qed
  with c have upd: "update_reply w = Done" by (simp add: run_completes_def)
  have "calls (snd (correctExistingStreakCounts p w)) = calls w @ [Select, Update (to_reset p w)]"
    by (simp add: run_update_done [OF sel ok ne upd])
  with assms(2) have "ids = to_reset p w" by simp
  then show ?thesis using sel ok ne upd by blast
qed

text \<open>
  C8. When the run succeeds and has issued the batched update for \<open>ids\<close>, the result is
  \<^verbatim>\<open>success: true\<close>, the message "Reset streak counts for n children who missed check-ins"
  with n the length of \<open>ids\<close>, and \<^verbatim>\<open>resetChildren\<close> equal to \<open>ids\<close>; \<open>ids\<close> holds exactly the
  identifiers of the loaded rows that the loop classified, and these rows are the ones set to
  zero. A loaded record checked in three (or more) calendar days ago is in the list; with
  unique identifiers a record checked in yesterday is not.
\<close>

theorem summary_lists_the_reset_children:
  assumes "success (fst (correctExistingStreakCounts p w))"
    and "calls (snd (correctExistingStreakCounts p w)) = calls w @ [Select, Update ids]"
  shows "fst (correctExistingStreakCounts p w)
           = \<lparr>success = True, message = Some (reset_message (length ids)),
              resetChildren = Some ids, error = None\<rparr>
         \<and> ids = map child_id (filter (needs_reset p (startOfDay (now w))) (loaded w))
         \<and> set ids = child_id ` {r \<in> set (child_progress_table w).
                         0 < streak_count r \<and> needs_reset p (startOfDay (now w)) r}
         \<and> child_progress_table (snd (correctExistingStreakCounts p w))
             = map (set_streak_zero ids) (child_progress_table w)
         \<and> (\<forall>r\<in>set (child_progress_table w). \<forall>s t.
               0 < streak_count r \<and> last_check_in r = Some s \<and> s \<noteq> [] \<and> p s = Some t
                 \<and> 3 \<le> differenceInCalendarDays (now w) t
               \<longrightarrow> child_id r \<in> set ids)
         \<and> (distinct (map child_id (child_progress_table w)) \<longrightarrow>
              (\<forall>r\<in>set (child_progress_table w). \<forall>s t.
                 last_check_in r = Some s \<and> s \<noteq> [] \<and> p s = Some t
                   \<and> differenceInCalendarDays (now w) t = 1
                 \<longrightarrow> child_id r \<notin> set ids))"
proof -
  from applied_run [OF assms] have sel: "select_reply w = Done"
    and ok: "\<forall>r\<in>set (loaded w). \<not> unreadable p r" and ne: "to_reset p w \<noteq> []"
    and upd: "update_reply w = Done" and ids: "ids = to_reset p w"
    by blast+
  have res: "fst (correctExistingStreakCounts p w)
      = \<lparr>success = True, message = Some (reset_message (length ids)),
         resetChildren = Some ids, error = None\<rparr>"
    by (simp add: run_update_done [OF sel ok ne upd] ids)
  have lst: "ids = map child_id (filter (needs_reset p (startOfDay (now w))) (loaded w))"
    by (simp add: ids to_reset_def)
  have st: "set ids = child_id ` {r \<in> set (child_progress_table w).
      0 < streak_count r \<and> needs_reset p (startOfDay (now w)) r}"
    by (auto simp: lst loaded_def)
  have tab: "child_progress_table (snd (correctExistingStreakCounts p w))
      = map (set_streak_zero ids) (child_progress_table w)"
    by (simp add: run_update_done [OF sel ok ne upd] ids)
  have old: "child_id r \<in> set ids"
    if "r \<in> set (child_progress_table w)" "0 < streak_count r" "last_check_in r = Some s"
      "s \<noteq> []" "p s = Some t" "3 \<le> differenceInCalendarDays (now w) t" for r s t
  proof -
    have "needs_reset p (startOfDay (now w)) r"
      using that(3,5) stale_if_three_days [OF that(6)] by (simp add: needs_reset_def)
    then show ?thesis using that(1,2) unfolding st by blast
  qed
  have fresh: "child_id r \<notin> set ids"
    if "distinct (map child_id (child_progress_table w))" "r \<in> set (child_progress_table w)"
      "last_check_in r = Some s" "s \<noteq> []" "p s = Some t"
      "differenceInCalendarDays (now w) t = 1" for r s t
  proof -
    have "differenceInDays (startOfDay (now w)) t \<le> 1"
      using today_or_yesterday_fresh [of "now w" t] that(6) by blast
    then have "\<not> needs_reset p (startOfDay (now w)) r"
      using fresh_not_reset [where p = p and r = r and s = s and t = t and sod = "startOfDay (now w)"]
        that(3,4,5) by blast
    then show ?thesis using in_to_reset_unique [OF that(1,2), of p] ids by blast
  qed
  show ?thesis using res lst st tab old fresh by blast
qed

theorem summary_lists_the_reset_children_witness:
  "fst (correctExistingStreakCounts parseISO_local
          (world_of [row_three_days_ago, row_yesterday] Done Done))
     = \<lparr>success = True,
        message = Some ''Reset streak counts for 1 children who missed check-ins'',
        resetChildren = Some [''A''], error = None\<rparr>
   \<and> child_id row_three_days_ago \<in> set [''A'']
   \<and> child_id row_yesterday \<notin> set [''A'']"
proof -
  let ?w = "world_of [row_three_days_ago, row_yesterday] Done Done"
  have h1: "success (fst (correctExistingStreakCounts parseISO_local ?w))" by code_simp
  have h2: "calls (snd (correctExistingStreakCounts parseISO_local ?w))
      = calls ?w @ [Select, Update [''A'']]" by code_simp
  have m: "reset_message (length [''A''])
      = ''Reset streak counts for 1 children who missed check-ins''" by code_simp
  have a: "row_three_days_ago \<in> set (child_progress_table ?w)
      \<and> 0 < streak_count row_three_days_ago
      \<and> last_check_in row_three_days_ago = Some ''2024-01-14T15:00:00''
      \<and> ''2024-01-14T15:00:00'' \<noteq> []
      \<and> parseISO_local ''2024-01-14T15:00:00'' = Some (local_ms 2024 1 14 15 0 0)
      \<and> 3 \<le> differenceInCalendarDays (now ?w) (local_ms 2024 1 14 15 0 0)" by code_simp
  have b: "distinct (map child_id (child_progress_table ?w))
      \<and> row_yesterday \<in> set (child_progress_table ?w)
      \<and> last_check_in row_yesterday = Some ''2024-01-16T08:30:00''
      \<and> ''2024-01-16T08:30:00'' \<noteq> []
      \<and> parseISO_local ''2024-01-16T08:30:00'' = Some (local_ms 2024 1 16 8 30 0)
      \<and> differenceInCalendarDays (now ?w) (local_ms 2024 1 16 8 30 0) = 1" by code_simp
  note inst = summary_lists_the_reset_children [OF h1 h2]
  have res: "fst (correctExistingStreakCounts parseISO_local ?w)
      = \<lparr>success = True,
         message = Some ''Reset streak counts for 1 children who missed check-ins'',
         resetChildren = Some [''A''], error = None\<rparr>"
    using inst unfolding m by blast
  have inA: "child_id row_three_days_ago \<in> set [''A'']" using inst a by blast
  have outB: "child_id row_yesterday \<notin> set [''A'']" using inst b by blast
  show ?thesis using res inA outB by blast
qed

subsection \<open>What a successful run guarantees\<close>

text \<open>
  C2, as the code has it. After a successful run every record with a positive streak has a
  check-in that is present, parses, and is dated less than three calendar days before today
  (a date in the future also passes); and every record that had a positive streak and no
  check-in, or a check-in three or more calendar days before today, ends with streak 0.
\<close>

theorem after_success_positive_streaks_are_recent:
  assumes "success (fst (correctExistingStreakCounts p w))"
  shows "(\<forall>r\<in>set (child_progress_table (snd (correctExistingStreakCounts p w))).
            0 < streak_count r \<longrightarrow>
              (\<exists>s t. last_check_in r = Some s \<and> s \<noteq> [] \<and> p s = Some t
                 \<and> differenceInCalendarDays (now w) t < 3))
         \<and> length (child_progress_table (snd (correctExistingStreakCounts p w)))
             = length (child_progress_table w)
         \<and> (\<forall>i<length (child_progress_table w).
               0 < streak_count (child_progress_table w ! i)
               \<and> (last_check_in (child_progress_table w ! i) = None
                  \<or> last_check_in (child_progress_table w ! i) = Some []
                  \<or> (\<exists>s t. last_check_in (child_progress_table w ! i) = Some s \<and> p s = Some t
                        \<and> 3 \<le> differenceInCalendarDays (now w) t))
               \<longrightarrow> streak_count (child_progress_table (snd (correctExistingStreakCounts p w)) ! i) = 0)"
proof -
  let ?v = "snd (correctExistingStreakCounts p w)"
  from assms have c: "run_completes p w" by (simp add: success_iff_completes)
  then have ok: "\<forall>r\<in>set (loaded w). \<not> unreadable p r" by (simp add: run_completes_def)
  have tab: "child_progress_table ?v = map (set_streak_zero (to_reset p w)) (child_progress_table w)"
    using c by (simp add: final_table)
  have recent: "\<exists>s t. last_check_in r = Some s \<and> s \<noteq> [] \<and> p s = Some t
      \<and> differenceInCalendarDays (now w) t < 3"
    if "r \<in> set (child_progress_table ?v)" "0 < streak_count r" for r
  proof -
    from that have "r \<in> set (loaded ?v)" by (simp add: loaded_def)
    then have l: "r \<in> set (loaded w)" and nr: "\<not> needs_reset p (startOfDay (now w)) r"
      using loaded_after_reset [OF tab] by blast+
    from l ok have rd: "\<not> unreadable p r" by blast
    from nr obtain s where s: "last_check_in r = Some s" "s \<noteq> []"
      by (auto simp: needs_reset_def split: option.splits)
    with rd obtain t where t: "p s = Some t" by (auto simp: unreadable_def)
    with nr s have "\<not> 1 < differenceInDays (startOfDay (now w)) t"
      by (simp add: needs_reset_def)
    then have "differenceInCalendarDays (now w) t < 3" by (rule fresh_below_three_days)
    then show ?thesis using s t by blast
  qed
  have zero: "streak_count (child_progress_table ?v ! i) = 0"
    if "i < length (child_progress_table w)" "0 < streak_count (child_progress_table w ! i)"
      "last_check_in (child_progress_table w ! i) = None
       \<or> last_check_in (child_progress_table w ! i) = Some []
       \<or> (\<exists>s t. last_check_in (child_progress_table w ! i) = Some s \<and> p s = Some t
             \<and> 3 \<le> differenceInCalendarDays (now w) t)" for i
  proof -
    let ?r = "child_progress_table w ! i"
    have "needs_reset p (startOfDay (now w)) ?r"
      using that(3) stale_if_three_days [of "now w"]
      by (auto simp: needs_reset_def split: option.splits)
    moreover have "?r \<in> set (child_progress_table w)" using that(1) by simp
    ultimately have "child_id ?r \<in> set (to_reset p w)"
      using that(2) by (auto simp: in_to_reset)
    then have "streak_count (set_streak_zero (to_reset p w) ?r) = 0"
      by (simp add: set_streak_zero_def)
    then show ?thesis using that(1) by (simp add: tab)
  qed
  show ?thesis using recent zero final_length [of p w] by blast
qed

theorem after_success_positive_streaks_are_recent_witness:
  "streak_count (child_progress_table (snd (correctExistingStreakCounts parseISO_local
      (world_of [row_no_check_in, row_yesterday, row_three_days_ago] Done Done))) ! 0) = 0
   \<and> streak_count (child_progress_table (snd (correctExistingStreakCounts parseISO_local
      (world_of [row_no_check_in, row_yesterday, row_three_days_ago] Done Done))) ! 2) = 0
   \<and> (\<exists>s t. last_check_in row_yesterday = Some s \<and> s \<noteq> [] \<and> parseISO_local s = Some t
          \<and> differenceInCalendarDays today_example t < 3)"
proof -
  let ?w = "world_of [row_no_check_in, row_yesterday, row_three_days_ago] Done Done"
  let ?T = "child_progress_table (snd (correctExistingStreakCounts parseISO_local ?w))"
  have h: "success (fst (correctExistingStreakCounts parseISO_local ?w))" by code_simp
  note inst = after_success_positive_streaks_are_recent [OF h]
  have a: "(0::nat) < length (child_progress_table ?w)
      \<and> 0 < streak_count (child_progress_table ?w ! 0)
      \<and> last_check_in (child_progress_table ?w ! 0) = None" by code_simp
  have b: "(2::nat) < length (child_progress_table ?w)
      \<and> 0 < streak_count (child_progress_table ?w ! 2)
      \<and> last_check_in (child_progress_table ?w ! 2) = Some ''2024-01-14T15:00:00''
      \<and> parseISO_local ''2024-01-14T15:00:00'' = Some (local_ms 2024 1 14 15 0 0)
      \<and> 3 \<le> differenceInCalendarDays (now ?w) (local_ms 2024 1 14 15 0 0)" by code_simp
  have y: "row_yesterday \<in> set ?T \<and> 0 < streak_count row_yesterday" by code_simp
  have n: "now ?w = today_example" by (simp add: world_of_def)
  have one: "streak_count (?T ! 0) = 0" using inst a by blast
  have two: "streak_count (?T ! 2) = 0" using inst b by blast
  have three: "\<exists>s t. last_check_in row_yesterday = Some s \<and> s \<noteq> [] \<and> parseISO_local s = Some t
      \<and> differenceInCalendarDays today_example t < 3"
    using inst y unfolding n by blast
  show ?thesis using one two three by blast
qed

text \<open>
  C2 as stated says that after a successful run a positive streak goes with a check-in dated
  today or yesterday. A record whose check-in is dated three days ahead keeps its streak of 4
  through a successful run.
\<close>

theorem future_record_breaks_invariant_counterexample:
  "success (fst (correctExistingStreakCounts parseISO_local (world_of [row_future] Done Done)))
   \<and> child_progress_table (snd (correctExistingStreakCounts parseISO_local
        (world_of [row_future] Done Done))) = [row_future]
   \<and> streak_count row_future = 4
   \<and> parseISO_local ''2024-01-20T09:00:00'' = Some (local_ms 2024 1 20 9 0 0)
   \<and> differenceInCalendarDays today_example (local_ms 2024 1 20 9 0 0) = - 3
   \<and> \<not> list_all (spec_invariant parseISO_local today_example)
        (child_progress_table (snd (correctExistingStreakCounts parseISO_local
           (world_of [row_future] Done Done))))"
  by code_simp

subsection \<open>Two days ago, after midnight\<close>

text \<open>
  The job's test and the specification's agree on a check-in that carries no time of day;
  they part on a check-in two calendar days back with a time after midnight.
\<close>

lemma full_days_are_calendar_days_at_midnight:
  assumes "t mod ms_per_day = 0"
  shows "1 < differenceInDays (startOfDay n) t \<longleftrightarrow> 1 < differenceInCalendarDays n t"
proof -
  have "differenceInCalendarDays n t * ms_per_day = startOfDay n - t"
    using assms by (simp add: calendar_gap)
  then have "2 * ms_per_day \<le> startOfDay n - t \<longleftrightarrow> 2 \<le> differenceInCalendarDays n t"
    by (simp add: ms_per_day_def) linarith
  then show ?thesis by (simp add: stale_iff) linarith
qed

text \<open>
  C1 at a record last checked in two days ago at 15:00, evaluated at 10:00: the calendar-day
  difference is 2, so the specification classifies the record for reset; the job measures one
  full day from today's midnight back to the check-in, classifies nothing, issues no write and
  leaves the streak at 5.
\<close>

theorem two_days_ago_is_not_reset:
  "parseISO_local ''2024-01-15T15:00:00'' = Some (local_ms 2024 1 15 15 0 0)
   \<and> differenceInCalendarDays today_example (local_ms 2024 1 15 15 0 0) = 2
   \<and> spec_classified parseISO_local today_example row_two_days_ago
   \<and> differenceInDays (startOfDay today_example) (local_ms 2024 1 15 15 0 0) = 1
   \<and> childrenToUpdate_loop parseISO_local (startOfDay today_example) [row_two_days_ago] [] = Inr []
   \<and> correctExistingStreakCounts parseISO_local (world_of [row_two_days_ago] Done Done)
       = (\<lparr>success = True, message = Some ''No streak count corrections needed'',
           resetChildren = None, error = None\<rparr>,
          \<lparr>child_progress_table = [row_two_days_ago], now = today_example,
           select_reply = Done, update_reply = Done, calls = [Select]\<rparr>)
   \<and> streak_count row_two_days_ago = 5"
  by code_simp

end
